theory Spec2Isabelle
  imports Main
begin

section \<open>The host objects used by cors-fixer.js\<close>

text \<open>
  The script \<^verbatim>\<open>static/js/cors-fixer.js\<close> creates, per call, one \<^verbatim>\<open>Image\<close>, one
  timer (\<^verbatim>\<open>setTimeout\<close>) and, in \<^verbatim>\<open>preloadImage\<close>, one \<^verbatim>\<open>Promise\<close>. These
  objects live in a store (the page), addressed by the position at which they were
  allocated. The caller's \<^verbatim>\<open>callback\<close> is an opaque function: it is named by an
  identifier and each of its invocations is recorded in the trace, next to the lines
  written with \<^verbatim>\<open>console.warn\<close>.
\<close>

type_synonym timer_id = nat
type_synonym image_id = nat
type_synonym promise_id = nat
type_synonym callback_id = nat

text \<open>
  The six closures the script creates, each with the variables it captures:
  the arrow function given to \<^verbatim>\<open>setTimeout\<close> and the two functions stored in
  \<^verbatim>\<open>img.onload\<close> and \<^verbatim>\<open>img.onerror\<close>, for each of the two operations. The
  \<^verbatim>\<open>resolve\<close> and \<^verbatim>\<open>reject\<close> functions a closure of \<^verbatim>\<open>preloadImage\<close> captures are
  given by the promise they belong to.
\<close>

datatype handler =
    CheckTimeout string callback_id
  | CheckOnload timer_id callback_id
  | CheckOnerror timer_id string callback_id
  | PreloadTimeout string promise_id
  | PreloadOnload timer_id string promise_id
  | PreloadOnerror timer_id string promise_id

datatype timer_status = Armed | Cleared | Fired

record timer =
  t_handler :: handler
  t_delay :: int
  t_status :: timer_status

datatype load_status = Idle | Loading | Complete

text \<open>
  \<open>request\<close> is the fetch the image started when \<open>src\<close> was assigned: the URL and the
  cross-origin mode the image had at that moment.
\<close>

record img =
  onload :: "handler option"
  onerror :: "handler option"
  crossOrigin :: "string option"
  src :: "string option"
  request :: "(string \<times> string option) option"
  i_status :: load_status

datatype js_error = Error string

datatype promise_state = Pending | Fulfilled string | Rejected js_error

datatype obs = Warn string | Called callback_id bool

record world =
  timers :: "timer list"
  images :: "img list"
  promises :: "promise_state list"
  trace :: "obs list"

datatype js_value = Undefined | PromiseRef promise_id

definition empty_world :: world where
  "empty_world = \<lparr>timers = [], images = [], promises = [], trace = []\<rparr>"

subsection \<open>Host primitives\<close>

definition new_Image :: "world \<Rightarrow> image_id \<times> world" where
  "new_Image w =
     (length (images w),
      w\<lparr>images := images w @
         [\<lparr>onload = None, onerror = None, crossOrigin = None, src = None,
           request = None, i_status = Idle\<rparr>]\<rparr>)"

definition setTimeout :: "handler \<Rightarrow> int \<Rightarrow> world \<Rightarrow> timer_id \<times> world" where
  "setTimeout h d w =
     (length (timers w),
      w\<lparr>timers := timers w @ [\<lparr>t_handler = h, t_delay = d, t_status = Armed\<rparr>]\<rparr>)"

text \<open>\<^verbatim>\<open>clearTimeout\<close> cancels a timer that is still waiting and does nothing otherwise.\<close>

definition clearTimeout :: "timer_id \<Rightarrow> world \<Rightarrow> world" where
  "clearTimeout t w =
     (if t < length (timers w) \<and> t_status (timers w ! t) = Armed
      then w\<lparr>timers := (timers w)[t := (timers w ! t)\<lparr>t_status := Cleared\<rparr>]\<rparr>
      else w)"

definition console_warn :: "string \<Rightarrow> world \<Rightarrow> world" where
  "console_warn msg w = w\<lparr>trace := trace w @ [Warn msg]\<rparr>"

definition call_callback :: "callback_id \<Rightarrow> bool \<Rightarrow> world \<Rightarrow> world" where
  "call_callback cb b w = w\<lparr>trace := trace w @ [Called cb b]\<rparr>"

definition new_Promise :: "world \<Rightarrow> promise_id \<times> world" where
  "new_Promise w = (length (promises w), w\<lparr>promises := promises w @ [Pending]\<rparr>)"

text \<open>
  The \<^verbatim>\<open>resolve\<close> and \<^verbatim>\<open>reject\<close> functions of a promise settle it when it is pending
  and do nothing once it is settled.
\<close>

definition settle :: "promise_id \<Rightarrow> promise_state \<Rightarrow> world \<Rightarrow> world" where
  "settle p s w =
     (if p < length (promises w) \<and> promises w ! p = Pending
      then w\<lparr>promises := (promises w)[p := s]\<rparr>
      else w)"

definition resolve :: "promise_id \<Rightarrow> string \<Rightarrow> world \<Rightarrow> world" where
  "resolve p v w = settle p (Fulfilled v) w"

definition reject :: "promise_id \<Rightarrow> js_error \<Rightarrow> world \<Rightarrow> world" where
  "reject p e w = settle p (Rejected e) w"

definition update_img :: "image_id \<Rightarrow> (img \<Rightarrow> img) \<Rightarrow> world \<Rightarrow> world" where
  "update_img i f w =
     (if i < length (images w) then w\<lparr>images := (images w)[i := f (images w ! i)]\<rparr> else w)"

definition set_onload :: "image_id \<Rightarrow> handler \<Rightarrow> world \<Rightarrow> world" where
  "set_onload i h w = update_img i (\<lambda>im. im\<lparr>onload := Some h\<rparr>) w"

definition set_onerror :: "image_id \<Rightarrow> handler \<Rightarrow> world \<Rightarrow> world" where
  "set_onerror i h w = update_img i (\<lambda>im. im\<lparr>onerror := Some h\<rparr>) w"

definition set_crossOrigin :: "image_id \<Rightarrow> string \<Rightarrow> world \<Rightarrow> world" where
  "set_crossOrigin i v w = update_img i (\<lambda>im. im\<lparr>crossOrigin := Some v\<rparr>) w"

text \<open>Assigning \<^verbatim>\<open>src\<close> starts the load, with the cross-origin mode set so far.\<close>

definition set_src :: "image_id \<Rightarrow> string \<Rightarrow> world \<Rightarrow> world" where
  "set_src i u w =
     update_img i
       (\<lambda>im. im\<lparr>src := Some u, request := Some (u, crossOrigin im), i_status := Loading\<rparr>) w"

section \<open>The two operations of cors-fixer.js\<close>

text \<open>
  \<^verbatim>\<open>function checkImageExists(url, callback, timeout = 5000)\<close>: an omitted
  \<^verbatim>\<open>timeout\<close> is \<open>None\<close>. The function has no \<^verbatim>\<open>return\<close> statement.
\<close>

definition checkImageExists ::
  "string \<Rightarrow> callback_id \<Rightarrow> int option \<Rightarrow> world \<Rightarrow> js_value \<times> world" where
  "checkImageExists url callback timeout_arg w =
     (let timeout = (case timeout_arg of None \<Rightarrow> 5000 | Some d \<Rightarrow> d);
          (img, w1) = new_Image w;
          (timer, w2) = setTimeout (CheckTimeout url callback) timeout w1;
          w3 = set_onload img (CheckOnload timer callback) w2;
          w4 = set_onerror img (CheckOnerror timer url callback) w3;
          w5 = set_crossOrigin img ''anonymous'' w4;
          w6 = set_src img url w5
      in (Undefined, w6))"

text \<open>
  \<^verbatim>\<open>function preloadImage(url, timeout = 5000)\<close>: \<^verbatim>\<open>new Promise\<close> allocates the
  promise and runs the executor at once; the promise is returned.
\<close>

definition preloadImage :: "string \<Rightarrow> int option \<Rightarrow> world \<Rightarrow> js_value \<times> world" where
  "preloadImage url timeout_arg w =
     (let timeout = (case timeout_arg of None \<Rightarrow> 5000 | Some d \<Rightarrow> d);
          (p, w0) = new_Promise w;
          (img, w1) = new_Image w0;
          (timer, w2) = setTimeout (PreloadTimeout url p) timeout w1;
          w3 = set_onload img (PreloadOnload timer url p) w2;
          w4 = set_onerror img (PreloadOnerror timer url p) w3;
          w5 = set_crossOrigin img ''anonymous'' w4;
          w6 = set_src img url w5
      in (PromiseRef p, w6))"

text \<open>The bodies of the six closures, statement by statement.\<close>

fun run_handler :: "handler \<Rightarrow> world \<Rightarrow> world" where
  "run_handler (CheckTimeout url callback) w =
     call_callback callback False (console_warn (''Image check timeout: '' @ url) w)"
| "run_handler (CheckOnload timer callback) w =
     call_callback callback True (clearTimeout timer w)"
| "run_handler (CheckOnerror timer url callback) w =
     call_callback callback False
       (console_warn (''Image failed to load: '' @ url) (clearTimeout timer w))"
| "run_handler (PreloadTimeout url p) w =
     reject p (Error (''Image load timeout: '' @ url))
       (console_warn (''Image load timeout: '' @ url) w)"
| "run_handler (PreloadOnload timer url p) w =
     resolve p url (clearTimeout timer w)"
| "run_handler (PreloadOnerror timer url p) w =
     reject p (Error (''Failed to load image: '' @ url))
       (console_warn (''Failed to load image: '' @ url) (clearTimeout timer w))"

section \<open>The event loop\<close>

text \<open>
  The host delivers three kinds of events. A timer fires once, and only while it is
  armed. An image whose load is under way ends it once, with a load event or with an
  error event, and the host then runs the handler stored for that event, if any.
\<close>

datatype event = TimerFire timer_id | ImgLoad image_id | ImgError image_id

definition finish_load :: "image_id \<Rightarrow> handler option \<Rightarrow> world \<Rightarrow> world" where
  "finish_load i ho w =
     (let w' = update_img i (\<lambda>im. im\<lparr>i_status := Complete\<rparr>) w
      in case ho of None \<Rightarrow> w' | Some h \<Rightarrow> run_handler h w')"

fun deliver :: "event \<Rightarrow> world \<Rightarrow> world" where
  "deliver (TimerFire t) w =
     (if t < length (timers w) \<and> t_status (timers w ! t) = Armed
      then run_handler (t_handler (timers w ! t))
             (w\<lparr>timers := (timers w)[t := (timers w ! t)\<lparr>t_status := Fired\<rparr>]\<rparr>)
      else w)"
| "deliver (ImgLoad i) w =
     (if i < length (images w) \<and> i_status (images w ! i) = Loading
      then finish_load i (onload (images w ! i)) w else w)"
| "deliver (ImgError i) w =
     (if i < length (images w) \<and> i_status (images w ! i) = Loading
      then finish_load i (onerror (images w ! i)) w else w)"

fun run :: "event list \<Rightarrow> world \<Rightarrow> world" where
  "run [] w = w"
| "run (e # es) w = run es (deliver e w)"

text \<open>
  What one event appends to the trace, and the events of a run, each with what it
  appended.
\<close>

definition emitted :: "event \<Rightarrow> world \<Rightarrow> obs list" where
  "emitted e w = drop (length (trace w)) (trace (deliver e w))"

fun outputs :: "event list \<Rightarrow> world \<Rightarrow> (event \<times> obs list) list" where
  "outputs [] w = []"
| "outputs (e # es) w = (e, emitted e w) # outputs es (deliver e w)"

text \<open>The lines of the trace written with \<^verbatim>\<open>console.warn\<close>.\<close>

definition is_warning :: "obs \<Rightarrow> bool" where
  "is_warning ob = (case ob of Warn m \<Rightarrow> True | Called cb b \<Rightarrow> False)"

section \<open>Probes\<close>

text \<open>
  The script publishes the two functions as \<^verbatim>\<open>window.imageUtils\<close>; a call is one of
  them with its arguments. The probe of a call is the timer, the image and (for
  \<^verbatim>\<open>preloadImage\<close>) the promise the call allocates: the next free positions of the
  page it is made in.
\<close>

datatype call = CheckImageExists callback_id "int option" | PreloadImage "int option"

fun invoke :: "call \<Rightarrow> string \<Rightarrow> world \<Rightarrow> js_value \<times> world" where
  "invoke (CheckImageExists callback timeout_arg) url w =
     checkImageExists url callback timeout_arg w"
| "invoke (PreloadImage timeout_arg) url w = preloadImage url timeout_arg w"

record probe =
  p_timer :: timer_id
  p_image :: image_id
  p_promise :: "promise_id option"

fun probe_of :: "call \<Rightarrow> world \<Rightarrow> probe" where
  "probe_of (CheckImageExists callback timeout_arg) w =
     \<lparr>p_timer = length (timers w), p_image = length (images w), p_promise = None\<rparr>"
| "probe_of (PreloadImage timeout_arg) w =
     \<lparr>p_timer = length (timers w), p_image = length (images w),
      p_promise = Some (length (promises w))\<rparr>"

text \<open>The events of a probe: its timer firing, its image loading or failing.\<close>

definition own :: "probe \<Rightarrow> event \<Rightarrow> bool" where
  "own P e = (e = TimerFire (p_timer P) \<or> e = ImgLoad (p_image P) \<or> e = ImgError (p_image P))"

definition probe_state :: "probe \<Rightarrow> world \<Rightarrow> timer \<times> img \<times> promise_state option" where
  "probe_state P w =
     (timers w ! p_timer P, images w ! p_image P,
      map_option (\<lambda>p. promises w ! p) (p_promise P))"

text \<open>
  In the run \<open>es\<close> from \<open>w1\<close> the probe ends in the state, and each of its events
  appends to the trace, as in the run of its own events alone from \<open>w2\<close>.
\<close>

definition own_events_decide :: "probe \<Rightarrow> event list \<Rightarrow> world \<Rightarrow> world \<Rightarrow> bool" where
  "own_events_decide P es w1 w2 =
     (probe_state P (run es w1) = probe_state P (run (filter (own P) es) w2) \<and>
      filter (\<lambda>(e, out). own P e) (outputs es w1) = outputs (filter (own P) es) w2)"

text \<open>
  The timer and the promise a closure captures. In a well-formed page every stored
  closure captures objects that exist; the empty page is well-formed, and calls and
  events keep a page so.
\<close>

fun handler_timer :: "handler \<Rightarrow> timer_id option" where
  "handler_timer (CheckTimeout url cb) = None"
| "handler_timer (CheckOnload t cb) = Some t"
| "handler_timer (CheckOnerror t url cb) = Some t"
| "handler_timer (PreloadTimeout url p) = None"
| "handler_timer (PreloadOnload t url p) = Some t"
| "handler_timer (PreloadOnerror t url p) = Some t"

fun handler_promise :: "handler \<Rightarrow> promise_id option" where
  "handler_promise (CheckTimeout url cb) = None"
| "handler_promise (CheckOnload t cb) = None"
| "handler_promise (CheckOnerror t url cb) = None"
| "handler_promise (PreloadTimeout url p) = Some p"
| "handler_promise (PreloadOnload t url p) = Some p"
| "handler_promise (PreloadOnerror t url p) = Some p"

definition handler_ok :: "world \<Rightarrow> handler \<Rightarrow> bool" where
  "handler_ok w h =
     ((case handler_timer h of None \<Rightarrow> True | Some t \<Rightarrow> t < length (timers w)) \<and>
      (case handler_promise h of None \<Rightarrow> True | Some p \<Rightarrow> p < length (promises w)))"

definition wf_world :: "world \<Rightarrow> bool" where
  "wf_world w =
     (list_all (\<lambda>T. handler_ok w (t_handler T)) (timers w) \<and>
      list_all (\<lambda>I. (case onload I of None \<Rightarrow> True | Some h \<Rightarrow> handler_ok w h) \<and>
                    (case onerror I of None \<Rightarrow> True | Some h \<Rightarrow> handler_ok w h))
        (images w))"

text \<open>
  Notions for the proofs: the objects of a probe exist; two pages agree on a probe; a
  closure is foreign to a probe when it captures neither its timer nor its promise; a
  probe is isolated when every closure stored outside it is foreign to it.
\<close>

definition in_range :: "probe \<Rightarrow> world \<Rightarrow> bool" where
  "in_range P w =
     (p_timer P < length (timers w) \<and> p_image P < length (images w) \<and>
      (\<forall>p. p_promise P = Some p \<longrightarrow> p < length (promises w)))"

definition agree :: "probe \<Rightarrow> world \<Rightarrow> world \<Rightarrow> bool" where
  "agree P w1 w2 = (in_range P w1 \<and> in_range P w2 \<and> probe_state P w1 = probe_state P w2)"

definition foreign :: "probe \<Rightarrow> handler \<Rightarrow> bool" where
  "foreign P h =
     (handler_timer h \<noteq> Some (p_timer P) \<and>
      (\<forall>p. handler_promise h = Some p \<longrightarrow> p_promise P \<noteq> Some p))"

definition isolated :: "probe \<Rightarrow> world \<Rightarrow> bool" where
  "isolated P w =
     (in_range P w \<and>
      (\<forall>t < length (timers w). t \<noteq> p_timer P \<longrightarrow> foreign P (t_handler (timers w ! t))) \<and>
      (\<forall>i < length (images w). i \<noteq> p_image P \<longrightarrow>
         (\<forall>h. onload (images w ! i) = Some h \<or> onerror (images w ! i) = Some h
               \<longrightarrow> foreign P h)))"

section \<open>Basic facts about the host primitives\<close>

lemmas host_defs = new_Image_def setTimeout_def clearTimeout_def console_warn_def
  call_callback_def new_Promise_def settle_def resolve_def reject_def update_img_def
  set_onload_def set_onerror_def set_crossOrigin_def set_src_def finish_load_def

lemma console_warn_fields [simp]:
  "timers (console_warn m w) = timers w"
  "images (console_warn m w) = images w"
  "promises (console_warn m w) = promises w"
  "trace (console_warn m w) = trace w @ [Warn m]"
  by (simp_all add: console_warn_def)

lemma call_callback_fields [simp]:
  "timers (call_callback cb b w) = timers w"
  "images (call_callback cb b w) = images w"
  "promises (call_callback cb b w) = promises w"
  "trace (call_callback cb b w) = trace w @ [Called cb b]"
  by (simp_all add: call_callback_def)

lemma clearTimeout_fields [simp]:
  "images (clearTimeout t w) = images w"
  "promises (clearTimeout t w) = promises w"
  "trace (clearTimeout t w) = trace w"
  "length (timers (clearTimeout t w)) = length (timers w)"
  by (simp_all add: clearTimeout_def)

lemma settle_fields [simp]:
  "timers (settle p s w) = timers w"
  "images (settle p s w) = images w"
  "trace (settle p s w) = trace w"
  "length (promises (settle p s w)) = length (promises w)"
  by (simp_all add: settle_def)

lemma update_img_fields [simp]:
  "timers (update_img i f w) = timers w"
  "promises (update_img i f w) = promises w"
  "trace (update_img i f w) = trace w"
  "length (images (update_img i f w)) = length (images w)"
  by (simp_all add: update_img_def)

text \<open>What a call leaves behind: one more timer, one more image (and one more promise).\<close>

lemma checkImageExists_world:
  "checkImageExists url callback timeout_arg w =
     (Undefined,
      w\<lparr>timers := timers w @
           [\<lparr>t_handler = CheckTimeout url callback,
             t_delay = (case timeout_arg of None \<Rightarrow> 5000 | Some d \<Rightarrow> d),
             t_status = Armed\<rparr>],
        images := images w @
           [\<lparr>onload = Some (CheckOnload (length (timers w)) callback),
             onerror = Some (CheckOnerror (length (timers w)) url callback),
             crossOrigin = Some ''anonymous'', src = Some url,
             request = Some (url, Some ''anonymous''), i_status = Loading\<rparr>]\<rparr>)"
  by (simp add: checkImageExists_def host_defs Let_def)

lemma preloadImage_world:
  "preloadImage url timeout_arg w =
     (PromiseRef (length (promises w)),
      w\<lparr>timers := timers w @
           [\<lparr>t_handler = PreloadTimeout url (length (promises w)),
             t_delay = (case timeout_arg of None \<Rightarrow> 5000 | Some d \<Rightarrow> d),
             t_status = Armed\<rparr>],
        images := images w @
           [\<lparr>onload = Some (PreloadOnload (length (timers w)) url (length (promises w))),
             onerror = Some (PreloadOnerror (length (timers w)) url (length (promises w))),
             crossOrigin = Some ''anonymous'', src = Some url,
             request = Some (url, Some ''anonymous''), i_status = Loading\<rparr>],
        promises := promises w @ [Pending]\<rparr>)"
  by (simp add: preloadImage_def host_defs Let_def)

text \<open>
  The order of the last two assignments matters: an image whose \<open>src\<close> is assigned
  first starts its request without a cross-origin mode.
\<close>

lemma src_before_crossOrigin:
  "(let (i, w1) = new_Image w
    in request (images (set_crossOrigin i ''anonymous'' (set_src i url w1)) ! i))
     = Some (url, None)"
  by (simp add: host_defs)

text \<open>The trace only grows, and lengths and stored closures never change.\<close>

lemma run_handler_trace:
  "\<exists>out. \<forall>w. trace (run_handler h w) = trace w @ out"
  by (cases h) (simp_all add: resolve_def reject_def)

lemma run_handler_emits:
  "drop (length (trace w1)) (trace (run_handler h w1))
     = drop (length (trace w2)) (trace (run_handler h w2))"
  by (cases h) (simp_all add: resolve_def reject_def)

lemma finish_load_emits:
  "drop (length (trace w1)) (trace (finish_load i ho w1))
     = drop (length (trace w2)) (trace (finish_load i ho w2))"
  using run_handler_emits
    [of "update_img i (\<lambda>im. im\<lparr>i_status := Complete\<rparr>) w1" _
        "update_img i (\<lambda>im. im\<lparr>i_status := Complete\<rparr>) w2"]
  by (cases ho) (simp_all add: finish_load_def Let_def)

lemma finish_load_trace:
  "\<exists>out. \<forall>w. trace (finish_load i ho w) = trace w @ out"
proof (cases ho)
  case None
  then show ?thesis by (simp add: finish_load_def)
next
  case (Some h)
  from run_handler_trace [of h] obtain out
    where "\<forall>w. trace (run_handler h w) = trace w @ out" by blast
  with Some show ?thesis by (simp add: finish_load_def Let_def)
qed

lemma trace_deliver: "trace (deliver e w) = trace w @ emitted e w"
proof -
  have "\<exists>out. trace (deliver e w) = trace w @ out"
  proof (cases e)
    case (TimerFire t)
    from run_handler_trace [of "t_handler (timers w ! t)"] obtain out
      where "\<forall>w'. trace (run_handler (t_handler (timers w ! t)) w') = trace w' @ out" by blast
    with TimerFire show ?thesis by simp
  next
    case (ImgLoad i)
    with finish_load_trace [of i "onload (images w ! i)"] show ?thesis by auto
  next
    case (ImgError i)
    with finish_load_trace [of i "onerror (images w ! i)"] show ?thesis by auto
  qed
  then show ?thesis by (auto simp add: emitted_def)
qed

lemma run_handler_lengths [simp]:
  "length (timers (run_handler h w)) = length (timers w)"
  "images (run_handler h w) = images w"
  "length (promises (run_handler h w)) = length (promises w)"
  by (cases h; simp add: resolve_def reject_def)+

lemma clearTimeout_handler [simp]:
  "t_handler (timers (clearTimeout t w) ! t') = t_handler (timers w ! t')"
  by (cases "t' = t") (simp_all add: clearTimeout_def)

lemma run_handler_handler [simp]:
  "t_handler (timers (run_handler h w) ! t') = t_handler (timers w ! t')"
  by (cases h) (simp_all add: resolve_def reject_def)

lemma finish_load_lengths [simp]:
  "length (timers (finish_load i ho w)) = length (timers w)"
  "length (images (finish_load i ho w)) = length (images w)"
  "length (promises (finish_load i ho w)) = length (promises w)"
  by (cases ho; simp add: finish_load_def Let_def)+

lemma finish_load_handlers [simp]:
  "t_handler (timers (finish_load i ho w) ! t') = t_handler (timers w ! t')"
  "onload (images (finish_load i ho w) ! i') = onload (images w ! i')"
  "onerror (images (finish_load i ho w) ! i') = onerror (images w ! i')"
  by (cases ho; cases "i' = i"; simp add: finish_load_def Let_def update_img_def)+

lemma deliver_lengths [simp]:
  "length (timers (deliver e w)) = length (timers w)"
  "length (images (deliver e w)) = length (images w)"
  "length (promises (deliver e w)) = length (promises w)"
  by (cases e; simp)+

lemma deliver_handlers [simp]:
  "t_handler (timers (deliver e w) ! t') = t_handler (timers w ! t')"
  "onload (images (deliver e w) ! i') = onload (images w ! i')"
  "onerror (images (deliver e w) ! i') = onerror (images w ! i')"
proof -
  show "t_handler (timers (deliver e w) ! t') = t_handler (timers w ! t')"
  proof (cases e)
    case (TimerFire t)
    then show ?thesis by (cases "t' = t") simp_all
  qed simp_all
  show "onload (images (deliver e w) ! i') = onload (images w ! i')"
    by (cases e) simp_all
  show "onerror (images (deliver e w) ! i') = onerror (images w ! i')"
    by (cases e) simp_all
qed

lemma run_lengths [simp]:
  "length (timers (run es w)) = length (timers w)"
  "length (images (run es w)) = length (images w)"
  "length (promises (run es w)) = length (promises w)"
  by (induction es arbitrary: w; simp)+

lemma run_append: "run (es @ es') w = run es' (run es w)"
  by (induction es arbitrary: w) simp_all

text \<open>A settled promise keeps its state, and a timer that is not armed stays as it is.\<close>

lemma settle_settled:
  "promises w ! p \<noteq> Pending \<Longrightarrow> promises (settle q s w) ! p = promises w ! p"
  by (cases "p = q") (simp_all add: settle_def)

lemma run_handler_settled:
  "promises w ! p \<noteq> Pending \<Longrightarrow> promises (run_handler h w) ! p = promises w ! p"
  by (cases h) (simp_all add: resolve_def reject_def settle_settled)

lemma finish_load_settled:
  "promises w ! p \<noteq> Pending \<Longrightarrow> promises (finish_load i ho w) ! p = promises w ! p"
  by (cases ho) (simp_all add: finish_load_def Let_def run_handler_settled)

lemma deliver_settled:
  "promises w ! p \<noteq> Pending \<Longrightarrow> promises (deliver e w) ! p = promises w ! p"
  by (cases e) (simp_all add: run_handler_settled finish_load_settled)

lemma run_settled:
  "promises w ! p \<noteq> Pending \<Longrightarrow> promises (run es w) ! p = promises w ! p"
  by (induction es arbitrary: w) (simp_all add: deliver_settled)

lemma clearTimeout_not_armed:
  "t_status (timers w ! t) \<noteq> Armed \<Longrightarrow> timers (clearTimeout t' w) ! t = timers w ! t"
  by (cases "t' = t") (simp_all add: clearTimeout_def)

lemma run_handler_not_armed:
  "t_status (timers w ! t) \<noteq> Armed \<Longrightarrow> timers (run_handler h w) ! t = timers w ! t"
  by (cases h) (simp_all add: resolve_def reject_def clearTimeout_not_armed)

lemma finish_load_not_armed:
  "t_status (timers w ! t) \<noteq> Armed \<Longrightarrow> timers (finish_load i ho w) ! t = timers w ! t"
  by (cases ho) (simp_all add: finish_load_def Let_def run_handler_not_armed)

lemma deliver_not_armed:
  assumes "t_status (timers w ! t) \<noteq> Armed"
  shows "timers (deliver e w) ! t = timers w ! t"
proof (cases e)
  case (TimerFire t')
  show ?thesis
  proof (cases "t' = t")
    case True
    with TimerFire assms show ?thesis by simp
  next
    case False
    with assms have
      "t_status (timers (w\<lparr>timers := (timers w)[t' := (timers w ! t')\<lparr>t_status := Fired\<rparr>]\<rparr>) ! t)
         \<noteq> Armed"
      by simp
    from run_handler_not_armed [OF this] False TimerFire show ?thesis by simp
  qed
next
  case (ImgLoad i)
  with assms show ?thesis by (simp add: finish_load_not_armed)
next
  case (ImgError i)
  with assms show ?thesis by (simp add: finish_load_not_armed)
qed

lemma run_not_armed:
  "t_status (timers w ! t) \<noteq> Armed \<Longrightarrow> timers (run es w) ! t = timers w ! t"
  by (induction es arbitrary: w) (simp_all add: deliver_not_armed)

section \<open>The events of a probe decide what it does\<close>

text \<open>Pages that agree on a probe still agree after the same primitive step.\<close>

lemma agree_console_warn: "agree P w1 w2 \<Longrightarrow> agree P (console_warn m w1) (console_warn m w2)"
  by (simp add: agree_def in_range_def probe_state_def)

lemma agree_call_callback:
  "agree P w1 w2 \<Longrightarrow> agree P (call_callback cb b w1) (call_callback cb b w2)"
  by (simp add: agree_def in_range_def probe_state_def)

lemma agree_timer_update:
  assumes "agree P w1 w2"
  shows "agree P (w1\<lparr>timers := (timers w1)[t := f (timers w1 ! t)]\<rparr>)
                 (w2\<lparr>timers := (timers w2)[t := f (timers w2 ! t)]\<rparr>)"
  using assms by (cases "t = p_timer P") (auto simp add: agree_def in_range_def probe_state_def)

lemma agree_clearTimeout:
  assumes "agree P w1 w2"
  shows "agree P (clearTimeout t w1) (clearTimeout t w2)"
  using assms
  by (cases "t = p_timer P")
     (auto simp add: agree_def in_range_def probe_state_def clearTimeout_def)

lemma agree_settle:
  assumes "agree P w1 w2"
  shows "agree P (settle p s w1) (settle p s w2)"
proof (cases "p_promise P = Some p")
  case True
  with assms show ?thesis
    by (auto simp add: agree_def in_range_def probe_state_def settle_def)
next
  case False
  with assms show ?thesis
    by (cases "p_promise P") (auto simp add: agree_def in_range_def probe_state_def settle_def)
qed

lemma agree_update_img:
  assumes "agree P w1 w2"
  shows "agree P (update_img i f w1) (update_img i f w2)"
  using assms
  by (cases "i = p_image P")
     (auto simp add: agree_def in_range_def probe_state_def update_img_def)

lemma agree_run_handler:
  "agree P w1 w2 \<Longrightarrow> agree P (run_handler h w1) (run_handler h w2)"
  by (cases h)
     (simp_all add: resolve_def reject_def agree_console_warn agree_call_callback
        agree_clearTimeout agree_settle)

lemma agree_finish_load:
  assumes "agree P w1 w2"
  shows "agree P (finish_load i ho w1) (finish_load i ho w2)"
  using agree_update_img [OF assms]
  by (cases ho) (simp_all add: finish_load_def Let_def agree_run_handler)

lemma agree_timer:
  "agree P w1 w2 \<Longrightarrow> timers w1 ! p_timer P = timers w2 ! p_timer P"
  by (simp add: agree_def probe_state_def)

lemma agree_image:
  "agree P w1 w2 \<Longrightarrow> images w1 ! p_image P = images w2 ! p_image P"
  by (simp add: agree_def probe_state_def)

lemma agree_promise:
  "agree P w1 w2 \<Longrightarrow> p_promise P = Some p \<Longrightarrow> promises w1 ! p = promises w2 ! p"
  by (simp add: agree_def probe_state_def)

lemma agree_in_range:
  "agree P w1 w2 \<Longrightarrow> in_range P w1 \<and> in_range P w2"
  by (simp add: agree_def)

lemma agree_refl: "in_range P w \<Longrightarrow> agree P w w"
  by (simp add: agree_def)

text \<open>An event of the probe does the same in two pages that agree on the probe.\<close>

lemma agree_deliver_timer:
  assumes "agree P w1 w2"
  shows "agree P (deliver (TimerFire (p_timer P)) w1) (deliver (TimerFire (p_timer P)) w2)"
proof -
  let ?t = "p_timer P"
  have eq: "timers w1 ! ?t = timers w2 ! ?t" using assms by (rule agree_timer)
  have r: "?t < length (timers w1)" "?t < length (timers w2)"
    using agree_in_range [OF assms] by (simp_all add: in_range_def)
  show ?thesis
  proof (cases "t_status (timers w2 ! ?t) = Armed")
    case True
    have "agree P (w1\<lparr>timers := (timers w1)[?t := (timers w1 ! ?t)\<lparr>t_status := Fired\<rparr>]\<rparr>)
                  (w2\<lparr>timers := (timers w2)[?t := (timers w2 ! ?t)\<lparr>t_status := Fired\<rparr>]\<rparr>)"
      using assms by (rule agree_timer_update)
    then have "agree P
        (run_handler (t_handler (timers w2 ! ?t))
           (w1\<lparr>timers := (timers w1)[?t := (timers w1 ! ?t)\<lparr>t_status := Fired\<rparr>]\<rparr>))
        (run_handler (t_handler (timers w2 ! ?t))
           (w2\<lparr>timers := (timers w2)[?t := (timers w2 ! ?t)\<lparr>t_status := Fired\<rparr>]\<rparr>))"
      by (rule agree_run_handler)
    with True eq r show ?thesis by simp
  next
    case False
    with eq assms show ?thesis by simp
  qed
qed

lemma emitted_deliver_timer:
  assumes "agree P w1 w2"
  shows "emitted (TimerFire (p_timer P)) w1 = emitted (TimerFire (p_timer P)) w2"
proof -
  let ?t = "p_timer P"
  have eq: "timers w1 ! ?t = timers w2 ! ?t" using assms by (rule agree_timer)
  have r: "?t < length (timers w1)" "?t < length (timers w2)"
    using agree_in_range [OF assms] by (simp_all add: in_range_def)
  show ?thesis
  proof (cases "t_status (timers w2 ! ?t) = Armed")
    case True
    have "drop (length (trace w1))
            (trace (run_handler (t_handler (timers w2 ! ?t))
               (w1\<lparr>timers := (timers w1)[?t := (timers w1 ! ?t)\<lparr>t_status := Fired\<rparr>]\<rparr>)))
        = drop (length (trace w2))
            (trace (run_handler (t_handler (timers w2 ! ?t))
               (w2\<lparr>timers := (timers w2)[?t := (timers w2 ! ?t)\<lparr>t_status := Fired\<rparr>]\<rparr>)))"
      using run_handler_emits
        [of "w1\<lparr>timers := (timers w1)[?t := (timers w1 ! ?t)\<lparr>t_status := Fired\<rparr>]\<rparr>" _
            "w2\<lparr>timers := (timers w2)[?t := (timers w2 ! ?t)\<lparr>t_status := Fired\<rparr>]\<rparr>"]
      by simp
    with True eq r show ?thesis by (simp add: emitted_def)
  next
    case False
    with eq show ?thesis by (simp add: emitted_def)
  qed
qed

lemma agree_deliver_image:
  assumes "agree P w1 w2"
  shows "agree P (deliver (ImgLoad (p_image P)) w1) (deliver (ImgLoad (p_image P)) w2)"
    and "agree P (deliver (ImgError (p_image P)) w1) (deliver (ImgError (p_image P)) w2)"
proof -
  have eq: "images w1 ! p_image P = images w2 ! p_image P" using assms by (rule agree_image)
  have r: "p_image P < length (images w1)" "p_image P < length (images w2)"
    using agree_in_range [OF assms] by (simp_all add: in_range_def)
  show "agree P (deliver (ImgLoad (p_image P)) w1) (deliver (ImgLoad (p_image P)) w2)"
    using eq r assms agree_finish_load [OF assms] by simp
  show "agree P (deliver (ImgError (p_image P)) w1) (deliver (ImgError (p_image P)) w2)"
    using eq r assms agree_finish_load [OF assms] by simp
qed

lemma emitted_deliver_image:
  assumes "agree P w1 w2"
  shows "emitted (ImgLoad (p_image P)) w1 = emitted (ImgLoad (p_image P)) w2"
    and "emitted (ImgError (p_image P)) w1 = emitted (ImgError (p_image P)) w2"
proof -
  have eq: "images w1 ! p_image P = images w2 ! p_image P" using assms by (rule agree_image)
  have r: "p_image P < length (images w1)" "p_image P < length (images w2)"
    using agree_in_range [OF assms] by (simp_all add: in_range_def)
  show "emitted (ImgLoad (p_image P)) w1 = emitted (ImgLoad (p_image P)) w2"
    using eq r finish_load_emits [of w1 "p_image P" _ w2] by (simp add: emitted_def)
  show "emitted (ImgError (p_image P)) w1 = emitted (ImgError (p_image P)) w2"
    using eq r finish_load_emits [of w1 "p_image P" _ w2] by (simp add: emitted_def)
qed

lemma own_step:
  assumes "agree P w1 w2" and "own P e"
  shows "agree P (deliver e w1) (deliver e w2) \<and> emitted e w1 = emitted e w2"
  using assms(2) agree_deliver_timer [OF assms(1)] agree_deliver_image [OF assms(1)]
    emitted_deliver_timer [OF assms(1)] emitted_deliver_image [OF assms(1)]
  unfolding own_def by blast

text \<open>An event of another object leaves an isolated probe as it is.\<close>

lemma in_range_deliver [simp]: "in_range P (deliver e w) = in_range P w"
  by (simp add: in_range_def)

lemma isolated_deliver [simp]: "isolated P (deliver e w) = isolated P w"
  by (simp add: isolated_def)

lemma clearTimeout_other:
  "t \<noteq> t' \<Longrightarrow> timers (clearTimeout t w) ! t' = timers w ! t'"
  by (simp add: clearTimeout_def)

lemma settle_other:
  "p \<noteq> p' \<Longrightarrow> promises (settle p s w) ! p' = promises w ! p'"
  by (simp add: settle_def)

lemma run_handler_foreign:
  assumes "foreign P h"
  shows "probe_state P (run_handler h w) = probe_state P w"
  using assms
  by (cases h; cases "p_promise P")
     (auto simp add: foreign_def probe_state_def resolve_def reject_def
        clearTimeout_other settle_other)

lemma finish_load_foreign:
  assumes "i \<noteq> p_image P" and "\<forall>h. ho = Some h \<longrightarrow> foreign P h"
  shows "probe_state P (finish_load i ho w) = probe_state P w"
proof -
  have "probe_state P (update_img i (\<lambda>im. im\<lparr>i_status := Complete\<rparr>) w) = probe_state P w"
    using assms(1) by (simp add: probe_state_def update_img_def)
  with assms(2) show ?thesis
    by (cases ho) (simp_all add: finish_load_def Let_def run_handler_foreign)
qed

lemma other_step:
  assumes "isolated P w" and "\<not> own P e"
  shows "probe_state P (deliver e w) = probe_state P w"
proof (cases e)
  case (TimerFire t)
  with assms(2) have ne: "t \<noteq> p_timer P" by (auto simp add: own_def)
  show ?thesis
  proof (cases "t < length (timers w) \<and> t_status (timers w ! t) = Armed")
    case True
    with ne assms(1) have f: "foreign P (t_handler (timers w ! t))"
      by (simp add: isolated_def)
    have "probe_state P (w\<lparr>timers := (timers w)[t := (timers w ! t)\<lparr>t_status := Fired\<rparr>]\<rparr>)
            = probe_state P w"
      using ne by (simp add: probe_state_def)
    with True TimerFire f show ?thesis by (simp add: run_handler_foreign)
  next
    case False
    with TimerFire show ?thesis by auto
  qed
next
  case (ImgLoad i)
  with assms(2) have ne: "i \<noteq> p_image P" by (auto simp add: own_def)
  show ?thesis
  proof (cases "i < length (images w) \<and> i_status (images w ! i) = Loading")
    case True
    with ne assms(1) have "\<forall>h. onload (images w ! i) = Some h \<longrightarrow> foreign P h"
      by (auto simp add: isolated_def)
    with True ImgLoad ne show ?thesis by (simp add: finish_load_foreign)
  next
    case False
    with ImgLoad show ?thesis by auto
  qed
next
  case (ImgError i)
  with assms(2) have ne: "i \<noteq> p_image P" by (auto simp add: own_def)
  show ?thesis
  proof (cases "i < length (images w) \<and> i_status (images w ! i) = Loading")
    case True
    with ne assms(1) have "\<forall>h. onerror (images w ! i) = Some h \<longrightarrow> foreign P h"
      by (auto simp add: isolated_def)
    with True ImgError ne show ?thesis by (simp add: finish_load_foreign)
  next
    case False
    with ImgError show ?thesis by auto
  qed
qed

lemma other_step_agree:
  assumes "isolated P v" and "agree P v w'" and "\<not> own P e"
  shows "agree P (deliver e v) w'"
  using assms other_step [OF assms(1,3)] by (simp add: agree_def)

lemma frame:
  assumes "isolated P w1" and "agree P w1 w2"
  shows "own_events_decide P es w1 w2"
  using assms unfolding own_events_decide_def
proof (induction es arbitrary: w1 w2)
  case Nil
  then show ?case by (simp add: agree_def)
next
  case (Cons e es)
  have i: "isolated P (deliver e w1)" using Cons.prems(1) by simp
  show ?case
  proof (cases "own P e")
    case True
    from own_step [OF Cons.prems(2) True]
    have a: "agree P (deliver e w1) (deliver e w2)" and b: "emitted e w1 = emitted e w2"
      by simp_all
    from Cons.IH [OF i a] True b show ?thesis by simp
  next
    case False
    have a: "agree P (deliver e w1) w2" using Cons.prems False by (rule other_step_agree)
    from Cons.IH [OF i a] False show ?thesis by simp
  qed
qed

section \<open>Well-formed pages and new probes\<close>

lemma both_ok:
  "((case a of None \<Rightarrow> True | Some h \<Rightarrow> Q h) \<and> (case b of None \<Rightarrow> True | Some h \<Rightarrow> Q h))
     = (\<forall>h. a = Some h \<or> b = Some h \<longrightarrow> Q h)"
  by (cases a; cases b; auto)

lemma wf_world_nth:
  "wf_world w =
     ((\<forall>t < length (timers w). handler_ok w (t_handler (timers w ! t))) \<and>
      (\<forall>i < length (images w). \<forall>h.
          onload (images w ! i) = Some h \<or> onerror (images w ! i) = Some h
            \<longrightarrow> handler_ok w h))"
  by (simp add: wf_world_def list_all_length both_ok)

lemma wf_empty_world: "wf_world empty_world"
  by (simp add: wf_world_def empty_world_def)

lemma handler_ok_lengths:
  assumes "length (timers w') = length (timers w)" and "length (promises w') = length (promises w)"
  shows "handler_ok w' h = handler_ok w h"
  using assms by (simp add: handler_ok_def split: option.splits)

lemma wf_deliver: "wf_world (deliver e w) = wf_world w"
  by (simp add: wf_world_nth handler_ok_lengths [of "deliver e w" w])

lemma wf_run: "wf_world (run es w) = wf_world w"
  by (induction es arbitrary: w) (simp_all add: wf_deliver)

lemma handler_ok_grow:
  assumes "handler_ok w h" and "length (timers w) \<le> length (timers w')"
    and "length (promises w) \<le> length (promises w')"
  shows "handler_ok w' h"
  using assms by (auto simp add: handler_ok_def split: option.splits)

text \<open>
  A call appends one timer and one image, whose closures capture the new timer and the
  new promise only, and leaves the rest of the page as it was.
\<close>

lemma invoke_timers:
  "\<exists>T. timers (snd (invoke c url w)) = timers w @ [T] \<and>
       handler_timer (t_handler T) = None \<and>
       (\<forall>p. handler_promise (t_handler T) = Some p \<longrightarrow> p_promise (probe_of c w) = Some p)"
  by (cases c) (simp_all add: checkImageExists_world preloadImage_world)

lemma invoke_images:
  "\<exists>I. images (snd (invoke c url w)) = images w @ [I] \<and>
       (\<forall>h. onload I = Some h \<or> onerror I = Some h \<longrightarrow>
          handler_timer h = Some (p_timer (probe_of c w)) \<and>
          (\<forall>p. handler_promise h = Some p \<longrightarrow> p_promise (probe_of c w) = Some p))"
  by (cases c) (auto simp add: checkImageExists_world preloadImage_world)

lemma invoke_promises:
  "length (promises w) \<le> length (promises (snd (invoke c url w))) \<and>
   take (length (promises w)) (promises (snd (invoke c url w))) = promises w"
  by (cases c) (simp_all add: checkImageExists_world preloadImage_world)

lemma invoke_trace: "trace (snd (invoke c url w)) = trace w"
  by (cases c) (simp_all add: checkImageExists_world preloadImage_world)

lemma probe_of_ids:
  "p_timer (probe_of c w) = length (timers w)"
  "p_image (probe_of c w) = length (images w)"
  "p_promise (probe_of c w) = Some p \<Longrightarrow> p = length (promises w)"
  by (cases c; auto)+

lemma in_range_new: "in_range (probe_of c w) (snd (invoke c url w))"
  by (cases c) (simp_all add: in_range_def checkImageExists_world preloadImage_world)

lemma handler_ok_foreign:
  assumes "handler_ok w h"
  shows "foreign (probe_of c w) h"
  using assms by (cases c) (auto simp add: handler_ok_def foreign_def split: option.splits)

lemma isolated_new:
  assumes "wf_world w"
  shows "isolated (probe_of c w) (snd (invoke c url w))"
proof -
  let ?P = "probe_of c w" and ?w = "snd (invoke c url w)"
  obtain T where T: "timers ?w = timers w @ [T]" using invoke_timers by blast
  obtain I where I: "images ?w = images w @ [I]" using invoke_images by blast
  have a: "foreign ?P (t_handler (timers ?w ! t))"
    if "t < length (timers ?w)" "t \<noteq> p_timer ?P" for t
  proof -
    from that T have lt: "t < length (timers w)" by (simp add: probe_of_ids)
    with assms have "handler_ok w (t_handler (timers w ! t))" by (simp add: wf_world_nth)
    then have "foreign ?P (t_handler (timers w ! t))" by (rule handler_ok_foreign)
    with lt T show ?thesis by (simp add: nth_append)
  qed
  have b: "foreign ?P h"
    if "i < length (images ?w)" "i \<noteq> p_image ?P"
      "onload (images ?w ! i) = Some h \<or> onerror (images ?w ! i) = Some h" for i h
  proof -
    from that I have lt: "i < length (images w)" by (simp add: probe_of_ids)
    with that(3) I have "onload (images w ! i) = Some h \<or> onerror (images w ! i) = Some h"
      by (simp add: nth_append)
    with lt assms have "handler_ok w h" by (auto simp add: wf_world_nth)
    then show ?thesis by (rule handler_ok_foreign)
  qed
  from a b in_range_new show ?thesis unfolding isolated_def by blast
qed

lemma isolated_invoke:
  assumes "isolated A w"
  shows "isolated A (snd (invoke b url w))"
proof -
  let ?w = "snd (invoke b url w)" and ?B = "probe_of b w"
  from assms have r: "in_range A w" by (simp add: isolated_def)
  obtain T where T: "timers ?w = timers w @ [T]" "handler_timer (t_handler T) = None"
    "\<forall>p. handler_promise (t_handler T) = Some p \<longrightarrow> p_promise ?B = Some p"
    using invoke_timers by blast
  obtain I where I: "images ?w = images w @ [I]"
    "\<forall>h. onload I = Some h \<or> onerror I = Some h \<longrightarrow>
          handler_timer h = Some (p_timer ?B) \<and>
          (\<forall>p. handler_promise h = Some p \<longrightarrow> p_promise ?B = Some p)"
    using invoke_images by blast
  have newp: "p_promise A \<noteq> Some p" if "p_promise ?B = Some p" for p
    using that r probe_of_ids(3) [OF that] by (auto simp add: in_range_def)
  have newt: "p_timer ?B \<noteq> p_timer A"
    using r by (simp add: in_range_def probe_of_ids)
  have r': "in_range A ?w"
    using r T(1) I(1) invoke_promises [of w b url] by (auto simp add: in_range_def)
  have a: "foreign A (t_handler (timers ?w ! t))"
    if "t < length (timers ?w)" "t \<noteq> p_timer A" for t
  proof (cases "t < length (timers w)")
    case True
    with that(2) assms T(1) show ?thesis by (simp add: isolated_def nth_append)
  next
    case False
    with that(1) T(1) have "timers ?w ! t = T" by (simp add: nth_append less_Suc_eq)
    with T(2,3) newp show ?thesis by (auto simp add: foreign_def)
  qed
  have b: "foreign A h"
    if "i < length (images ?w)" "i \<noteq> p_image A"
      "onload (images ?w ! i) = Some h \<or> onerror (images ?w ! i) = Some h" for i h
  proof (cases "i < length (images w)")
    case True
    with that I(1) have "onload (images w ! i) = Some h \<or> onerror (images w ! i) = Some h"
      by (simp add: nth_append)
    with True that(2) assms show ?thesis by (auto simp add: isolated_def)
  next
    case False
    with that(1) I(1) have "images ?w ! i = I" by (simp add: nth_append less_Suc_eq)
    with that(3) I(2) newp newt show ?thesis by (auto simp add: foreign_def)
  qed
  from a b r' show ?thesis unfolding isolated_def by blast
qed

lemma wf_invoke:
  assumes "wf_world w"
  shows "wf_world (snd (invoke c url w))"
proof -
  let ?w = "snd (invoke c url w)" and ?P = "probe_of c w"
  obtain T where T: "timers ?w = timers w @ [T]" "handler_timer (t_handler T) = None"
    "\<forall>p. handler_promise (t_handler T) = Some p \<longrightarrow> p_promise ?P = Some p"
    using invoke_timers by blast
  obtain I where I: "images ?w = images w @ [I]"
    "\<forall>h. onload I = Some h \<or> onerror I = Some h \<longrightarrow>
          handler_timer h = Some (p_timer ?P) \<and>
          (\<forall>p. handler_promise h = Some p \<longrightarrow> p_promise ?P = Some p)"
    using invoke_images by blast
  have r: "in_range ?P ?w" by (rule in_range_new)
  have grow: "handler_ok ?w h" if "handler_ok w h" for h
    using that by (rule handler_ok_grow) (simp_all add: T(1) invoke_promises)
  have new: "handler_ok ?w h"
    if "(handler_timer h = None \<or> handler_timer h = Some (p_timer ?P))"
       "\<forall>p. handler_promise h = Some p \<longrightarrow> p_promise ?P = Some p" for h
    using that r by (auto simp add: handler_ok_def in_range_def split: option.splits)
  have a: "handler_ok ?w (t_handler (timers ?w ! t))" if "t < length (timers ?w)" for t
  proof (cases "t < length (timers w)")
    case True
    with assms T(1) grow show ?thesis by (simp add: wf_world_nth nth_append)
  next
    case False
    with that T(1) have "timers ?w ! t = T" by (simp add: nth_append less_Suc_eq)
    with T(2,3) new show ?thesis by simp
  qed
  have b: "handler_ok ?w h"
    if "i < length (images ?w)"
      "onload (images ?w ! i) = Some h \<or> onerror (images ?w ! i) = Some h" for i h
  proof (cases "i < length (images w)")
    case True
    with that I(1) have "onload (images w ! i) = Some h \<or> onerror (images w ! i) = Some h"
      by (simp add: nth_append)
    with True assms have "handler_ok w h" by (auto simp add: wf_world_nth)
    then show ?thesis by (rule grow)
  next
    case False
    with that(1) I(1) have "images ?w ! i = I" by (simp add: nth_append less_Suc_eq)
    with that(2) I(2) new show ?thesis by auto
  qed
  from a b show ?thesis unfolding wf_world_nth by blast
qed

lemma agree_invoke:
  assumes "in_range A w"
  shows "agree A (snd (invoke b url w)) w"
proof -
  obtain T where T: "timers (snd (invoke b url w)) = timers w @ [T]"
    using invoke_timers by blast
  obtain I where I: "images (snd (invoke b url w)) = images w @ [I]"
    using invoke_images by blast
  have p: "promises (snd (invoke b url w)) ! p = promises w ! p" if "p < length (promises w)" for p
    using that invoke_promises [of w b url] by (metis nth_take)
  from assms T I p invoke_promises [of w b url] show ?thesis
    by (cases "p_promise A") (auto simp add: agree_def in_range_def probe_state_def nth_append)
qed

lemma new_probe_same:
  assumes "length (timers w1) = length (timers w2)"
    and "length (images w1) = length (images w2)"
    and "length (promises w1) = length (promises w2)"
  shows "probe_of c w1 = probe_of c w2"
    and "agree (probe_of c w2) (snd (invoke c url w1)) (snd (invoke c url w2))"
proof -
  show e: "probe_of c w1 = probe_of c w2" using assms by (cases c) simp_all
  have "probe_state (probe_of c w2) (snd (invoke c url w1))
          = probe_state (probe_of c w2) (snd (invoke c url w2))"
    using assms
    by (cases c)
       (simp_all add: probe_state_def checkImageExists_world preloadImage_world nth_append)
  with in_range_new [of c w1 url] in_range_new [of c w2 url] e
  show "agree (probe_of c w2) (snd (invoke c url w1)) (snd (invoke c url w2))"
    by (simp add: agree_def)
qed

text \<open>Until the first event of its own, a new probe is as the call left it.\<close>

lemma no_own_event:
  "(filter (own P) es = []) =
     (TimerFire (p_timer P) \<notin> set es \<and> ImgLoad (p_image P) \<notin> set es \<and>
      ImgError (p_image P) \<notin> set es)"
  by (auto simp add: filter_empty_conv own_def)

lemma untouched:
  assumes "wf_world w" and "filter (own (probe_of c w)) es = []"
  shows "agree (probe_of c w) (run es (snd (invoke c url w))) (snd (invoke c url w))"
proof -
  let ?P = "probe_of c w" and ?w = "snd (invoke c url w)"
  have r: "in_range ?P ?w" by (rule in_range_new)
  then have r': "in_range ?P (run es ?w)" by (simp add: in_range_def)
  from frame [OF isolated_new [OF assms(1)] agree_refl [OF r], of es] assms(2)
  have "probe_state ?P (run es ?w) = probe_state ?P ?w"
    by (simp add: own_events_decide_def)
  with r r' show ?thesis by (simp add: agree_def)
qed

text \<open>The first event of its own settles a \<^verbatim>\<open>preloadImage\<close> probe, for good.\<close>

lemma preload_first_event:
  assumes "own (probe_of (PreloadImage timeout_arg) w) e"
  shows "promises (deliver e (snd (preloadImage url timeout_arg w))) ! length (promises w) =
           (case e of TimerFire x \<Rightarrow> Rejected (Error (''Image load timeout: '' @ url))
            | ImgLoad x \<Rightarrow> Fulfilled url
            | ImgError x \<Rightarrow> Rejected (Error (''Failed to load image: '' @ url)))"
    and "t_status (timers (deliver e (snd (preloadImage url timeout_arg w))) ! length (timers w)) =
           (case e of TimerFire x \<Rightarrow> Fired | ImgLoad x \<Rightarrow> Cleared | ImgError x \<Rightarrow> Cleared)"
  using assms unfolding own_def
  by (auto simp add: preloadImage_world host_defs)

lemma preload_phase:
  fixes w url timeout_arg
  defines "P \<equiv> probe_of (PreloadImage timeout_arg) w"
    and "w' \<equiv> snd (preloadImage url timeout_arg w)"
  assumes "isolated P v" and "agree P v w'"
  shows "promises (run es v) ! length (promises w) =
           (case filter (own P) es of
              [] \<Rightarrow> Pending
            | TimerFire x # rest \<Rightarrow> Rejected (Error (''Image load timeout: '' @ url))
            | ImgLoad x # rest \<Rightarrow> Fulfilled url
            | ImgError x # rest \<Rightarrow> Rejected (Error (''Failed to load image: '' @ url))) \<and>
         t_status (timers (run es v) ! length (timers w)) =
           (case filter (own P) es of
              [] \<Rightarrow> Armed
            | TimerFire x # rest \<Rightarrow> Fired
            | ImgLoad x # rest \<Rightarrow> Cleared
            | ImgError x # rest \<Rightarrow> Cleared)"
  using assms(3,4)
proof (induction es arbitrary: v)
  case Nil
  have "p_promise P = Some (length (promises w))" "p_timer P = length (timers w)"
    by (simp_all add: P_def)
  with agree_promise [OF Nil(2)] agree_timer [OF Nil(2)] show ?case
    by (simp add: w'_def preloadImage_world)
next
  case (Cons e es)
  have pp: "p_promise P = Some (length (promises w))"
    and pt: "p_timer P = length (timers w)" by (simp_all add: P_def)
  show ?case
  proof (cases "own P e")
    case True
    from own_step [OF Cons.prems(2) True]
    have a: "agree P (deliver e v) (deliver e w')" by simp
    from True have f: "promises (deliver e w') ! length (promises w) =
           (case e of TimerFire x \<Rightarrow> Rejected (Error (''Image load timeout: '' @ url))
            | ImgLoad x \<Rightarrow> Fulfilled url
            | ImgError x \<Rightarrow> Rejected (Error (''Failed to load image: '' @ url)))"
      and g: "t_status (timers (deliver e w') ! length (timers w)) =
           (case e of TimerFire x \<Rightarrow> Fired | ImgLoad x \<Rightarrow> Cleared | ImgError x \<Rightarrow> Cleared)"
      unfolding P_def w'_def by (rule preload_first_event)+
    from agree_promise [OF a pp] f
    have f': "promises (deliver e v) ! length (promises w) =
           (case e of TimerFire x \<Rightarrow> Rejected (Error (''Image load timeout: '' @ url))
            | ImgLoad x \<Rightarrow> Fulfilled url
            | ImgError x \<Rightarrow> Rejected (Error (''Failed to load image: '' @ url)))"
      by simp
    then have s: "promises (deliver e v) ! length (promises w) \<noteq> Pending"
      by (cases e) simp_all
    from agree_timer [OF a] g pt
    have g': "t_status (timers (deliver e v) ! length (timers w)) =
           (case e of TimerFire x \<Rightarrow> Fired | ImgLoad x \<Rightarrow> Cleared | ImgError x \<Rightarrow> Cleared)"
      by simp
    then have n: "t_status (timers (deliver e v) ! length (timers w)) \<noteq> Armed"
      by (cases e) simp_all
    from True f' g' run_settled [OF s, of es] run_not_armed [OF n, of es]
    show ?thesis by (cases e) simp_all
  next
    case False
    have a: "agree P (deliver e v) w'"
      using Cons.prems False by (rule other_step_agree)
    have i: "isolated P (deliver e v)" using Cons.prems(1) by simp
    from Cons.IH [OF i a] False show ?thesis by simp
  qed
qed

lemma preload_promise:
  assumes "wf_world w"
  shows "promises (run es (snd (preloadImage url timeout_arg w))) ! length (promises w) =
           (case filter (own (probe_of (PreloadImage timeout_arg) w)) es of
              [] \<Rightarrow> Pending
            | TimerFire x # rest \<Rightarrow> Rejected (Error (''Image load timeout: '' @ url))
            | ImgLoad x # rest \<Rightarrow> Fulfilled url
            | ImgError x # rest \<Rightarrow> Rejected (Error (''Failed to load image: '' @ url))) \<and>
         t_status (timers (run es (snd (preloadImage url timeout_arg w))) ! length (timers w)) =
           (case filter (own (probe_of (PreloadImage timeout_arg) w)) es of
              [] \<Rightarrow> Armed
            | TimerFire x # rest \<Rightarrow> Fired
            | ImgLoad x # rest \<Rightarrow> Cleared
            | ImgError x # rest \<Rightarrow> Cleared)"
proof -
  have i: "isolated (probe_of (PreloadImage timeout_arg) w) (snd (preloadImage url timeout_arg w))"
    using isolated_new [OF assms, of "PreloadImage timeout_arg" url] by simp
  then have "in_range (probe_of (PreloadImage timeout_arg) w) (snd (preloadImage url timeout_arg w))"
    by (simp add: isolated_def)
  then have a: "agree (probe_of (PreloadImage timeout_arg) w)
      (snd (preloadImage url timeout_arg w)) (snd (preloadImage url timeout_arg w))"
    by (rule agree_refl)
  from preload_phase [OF i a] show ?thesis .
qed

section \<open>The callback of checkImageExists when the image event comes first\<close>

text \<open>
  What \<^verbatim>\<open>checkImageExists\<close> does guarantee: when the load or the error event of the
  image is the first event of the probe, the timer is cleared and the image is done,
  so no later event of the probe does anything, and all that the probe ever appends to
  the trace is the one report.
\<close>

lemma quiet_probe:
  assumes "t_status (timers v ! p_timer P) \<noteq> Armed"
    and "i_status (images v ! p_image P) \<noteq> Loading"
    and "own P e"
  shows "deliver e v = v"
  using assms unfolding own_def by auto

lemma quiet_outputs:
  assumes "t_status (timers v ! p_timer P) \<noteq> Armed"
    and "i_status (images v ! p_image P) \<noteq> Loading"
  shows "concat (map snd (outputs (filter (own P) es) v)) = []"
proof (induction es)
  case Nil
  show ?case by simp
next
  case (Cons e es)
  show ?case
  proof (cases "own P e")
    case True
    from quiet_probe [OF assms True] Cons show ?thesis by (simp add: emitted_def)
  next
    case False
    with Cons show ?thesis by simp
  qed
qed

lemma checkImageExists_image_first:
  assumes "wf_world w"
    and "TimerFire (length (timers w)) \<notin> set es1"
    and "ImgLoad (length (images w)) \<notin> set es1"
    and "ImgError (length (images w)) \<notin> set es1"
  shows "concat (map snd (filter (\<lambda>(e, out). own (probe_of (CheckImageExists callback timeout_arg) w) e)
           (outputs (es1 @ ImgLoad (length (images w)) # es2)
              (snd (checkImageExists url callback timeout_arg w)))))
         = [Called callback True]"
    and "concat (map snd (filter (\<lambda>(e, out). own (probe_of (CheckImageExists callback timeout_arg) w) e)
           (outputs (es1 @ ImgError (length (images w)) # es2)
              (snd (checkImageExists url callback timeout_arg w)))))
         = [Warn (''Image failed to load: '' @ url), Called callback False]"
proof -
  let ?c = "CheckImageExists callback timeout_arg"
  let ?P = "probe_of ?c w" and ?w = "snd (checkImageExists url callback timeout_arg w)"
  let ?i = "length (images w)"
  have n: "filter (own ?P) es1 = []" using assms(2-4) by (simp add: no_own_event)
  have i: "isolated ?P ?w" using isolated_new [OF assms(1), of ?c url] by simp
  then have a: "agree ?P ?w ?w" by (simp add: isolated_def agree_refl)
  have fr: "filter (\<lambda>(e, out). own ?P e) (outputs es ?w) = outputs (filter (own ?P) es) ?w" for es
    using frame [OF i a, of es] by (simp add: own_events_decide_def)
  have q1: "t_status (timers (deliver (ImgLoad ?i) ?w) ! p_timer ?P) \<noteq> Armed"
    "i_status (images (deliver (ImgLoad ?i) ?w) ! p_image ?P) \<noteq> Loading"
    by (simp_all add: checkImageExists_world host_defs)
  have q2: "t_status (timers (deliver (ImgError ?i) ?w) ! p_timer ?P) \<noteq> Armed"
    "i_status (images (deliver (ImgError ?i) ?w) ! p_image ?P) \<noteq> Loading"
    by (simp_all add: checkImageExists_world host_defs)
  have e1: "emitted (ImgLoad ?i) ?w = [Called callback True]"
    by (simp add: emitted_def checkImageExists_world host_defs)
  have e2: "emitted (ImgError ?i) ?w
              = [Warn (''Image failed to load: '' @ url), Called callback False]"
    by (simp add: emitted_def checkImageExists_world host_defs)
  have o: "own ?P (ImgLoad ?i)" "own ?P (ImgError ?i)" by (simp_all add: own_def)
  show "concat (map snd (filter (\<lambda>(e, out). own ?P e)
           (outputs (es1 @ ImgLoad ?i # es2) ?w))) = [Called callback True]"
    using n o e1 quiet_outputs [OF q1, of es2] by (simp add: fr del: probe_of.simps)
  show "concat (map snd (filter (\<lambda>(e, out). own ?P e)
           (outputs (es1 @ ImgError ?i # es2) ?w)))
         = [Warn (''Image failed to load: '' @ url), Called callback False]"
    using n o e2 quiet_outputs [OF q2, of es2] by (simp add: fr del: probe_of.simps)
qed

section \<open>The callback of checkImageExists after a timeout\<close>

text \<open>
  Claim C1: for every call \<^verbatim>\<open>checkImageExists(url, callback, timeout)\<close> the callback
  is invoked exactly once, and whichever of the timeout and the load handlers fires
  first takes from the other the ability to invoke it again.
  The timer handler does not detach \<^verbatim>\<open>img.onload\<close>: for an image that needs longer
  than the 100 ms given, the timer fires first, then the load ends, and the callback is
  invoked with \<^verbatim>\<open>false\<close> and then with \<^verbatim>\<open>true\<close>.
\<close>

theorem checkImageExists_timeout_then_load:
  "trace (run [TimerFire 0, ImgLoad 0]
       (snd (checkImageExists ''https://slow.example/big.png'' 0 (Some 100) empty_world)))
     = [Warn ''Image check timeout: https://slow.example/big.png'',
        Called 0 False, Called 0 True]"
  by (simp add: checkImageExists_world empty_world_def host_defs)

text \<open>
  Claim C2: for every probe of either operation at most one of the outcomes loaded,
  failed and timed-out is ever reported.
  A probe whose timer fires and whose load then ends with an error reports both
  timed-out and failed: \<^verbatim>\<open>checkImageExists\<close> warns and calls back for each, and
  \<^verbatim>\<open>preloadImage\<close> warns for each (its promise keeps the first).
\<close>

theorem timeout_then_error_reports_both:
  "trace (run [TimerFire 0, ImgError 0]
       (snd (checkImageExists ''https://slow.example/none.png'' 0 (Some 100) empty_world)))
     = [Warn ''Image check timeout: https://slow.example/none.png'', Called 0 False,
        Warn ''Image failed to load: https://slow.example/none.png'', Called 0 False] \<and>
   trace (run [TimerFire 0, ImgError 0]
       (snd (preloadImage ''https://slow.example/none.png'' (Some 100) empty_world)))
     = [Warn ''Image load timeout: https://slow.example/none.png'',
        Warn ''Failed to load image: https://slow.example/none.png'']"
  by (simp add: checkImageExists_world preloadImage_world empty_world_def host_defs)

text \<open>
  Claim C3: when the timeout fires first, the probe reports failure, and a later load
  or error event of the image has no further observable effect.
  The first half holds. After the timeout, the late load event of a
  \<^verbatim>\<open>checkImageExists\<close> probe invokes the callback a second time, and the late error
  event of a \<^verbatim>\<open>preloadImage\<close> probe writes a second warning while the promise stays
  rejected with the timeout error.
\<close>

theorem late_event_after_timeout_is_observed:
  "(let w1 = deliver (TimerFire 0)
               (snd (checkImageExists ''https://slow.example/big.png'' 0 (Some 100) empty_world))
    in trace w1 = [Warn ''Image check timeout: https://slow.example/big.png'', Called 0 False] \<and>
       emitted (ImgLoad 0) w1 = [Called 0 True]) \<and>
   (let w1 = deliver (TimerFire 0)
               (snd (preloadImage ''https://slow.example/big.png'' (Some 100) empty_world))
    in promises w1 ! 0 = Rejected (Error ''Image load timeout: https://slow.example/big.png'') \<and>
       trace w1 = [Warn ''Image load timeout: https://slow.example/big.png''] \<and>
       promises (deliver (ImgError 0) w1) ! 0 = promises w1 ! 0 \<and>
       emitted (ImgError 0) w1 = [Warn ''Failed to load image: https://slow.example/big.png''])"
  by (simp add: checkImageExists_world preloadImage_world empty_world_def host_defs emitted_def)

section \<open>Settlement of the promise of preloadImage\<close>

text \<open>
  Claim C4: for every call to \<^verbatim>\<open>preloadImage\<close> the returned promise settles exactly
  once, and the internal timer is cleared on whichever path settles first, so that it
  cannot fire after settlement.
  In a well-formed page, after any events \<open>es\<close>: the promise is pending exactly as long
  as no event of the probe has occurred; the timer is armed until then, cleared (by
  \<^verbatim>\<open>clearTimeout\<close>) when the first event of the probe was the load or the error
  event, and spent when it was the timer's own firing; and once the promise is
  settled, a timer event does nothing and no further events \<open>es'\<close> change the promise.
\<close>

theorem preloadImage_settles_exactly_once:
  assumes "wf_world w"
  shows "let P = probe_of (PreloadImage timeout_arg) w;
             p = length (promises w); t = length (timers w);
             w' = snd (preloadImage url timeout_arg w)
         in \<forall>es.
              (promises (run es w') ! p = Pending) = (filter (own P) es = []) \<and>
              t_status (timers (run es w') ! t) =
                (case filter (own P) es of
                   [] \<Rightarrow> Armed
                 | TimerFire x # rest \<Rightarrow> Fired
                 | ImgLoad x # rest \<Rightarrow> Cleared
                 | ImgError x # rest \<Rightarrow> Cleared) \<and>
              (promises (run es w') ! p \<noteq> Pending \<longrightarrow>
                 deliver (TimerFire t) (run es w') = run es w' \<and>
                 (\<forall>es'. promises (run (es @ es') w') ! p = promises (run es w') ! p))"
proof -
  let ?P = "probe_of (PreloadImage timeout_arg) w"
  let ?w = "snd (preloadImage url timeout_arg w)"
  let ?st = "\<lambda>es. case filter (own ?P) es of
                   [] \<Rightarrow> Armed
                 | TimerFire x # rest \<Rightarrow> Fired
                 | ImgLoad x # rest \<Rightarrow> Cleared
                 | ImgError x # rest \<Rightarrow> Cleared"
  have "(promises (run es ?w) ! length (promises w) = Pending) = (filter (own ?P) es = []) \<and>
        t_status (timers (run es ?w) ! length (timers w)) = ?st es \<and>
        (promises (run es ?w) ! length (promises w) \<noteq> Pending \<longrightarrow>
           deliver (TimerFire (length (timers w))) (run es ?w) = run es ?w \<and>
           (\<forall>es'. promises (run (es @ es') ?w) ! length (promises w)
                    = promises (run es ?w) ! length (promises w)))" for es
  proof -
    note c = preload_promise [OF assms, of es url timeout_arg]
    from c have a: "(promises (run es ?w) ! length (promises w) = Pending)
                      = (filter (own ?P) es = [])"
      by (auto split: list.splits event.splits)
    from c have b: "t_status (timers (run es ?w) ! length (timers w)) = ?st es" by simp
    from a b have n: "promises (run es ?w) ! length (promises w) \<noteq> Pending \<longrightarrow>
           t_status (timers (run es ?w) ! length (timers w)) \<noteq> Armed"
      by (auto split: list.splits event.splits)
    then have d: "promises (run es ?w) ! length (promises w) \<noteq> Pending \<longrightarrow>
           deliver (TimerFire (length (timers w))) (run es ?w) = run es ?w"
      by simp
    have e: "promises (run es ?w) ! length (promises w) \<noteq> Pending \<longrightarrow>
           (\<forall>es'. promises (run (es @ es') ?w) ! length (promises w)
                    = promises (run es ?w) ! length (promises w))"
      by (simp add: run_append run_settled)
    from a b d e show ?thesis by blast
  qed
  then show ?thesis unfolding Let_def by blast
qed

theorem preloadImage_settles_exactly_once_witness:
  "wf_world empty_world \<and>
   (let w' = snd (preloadImage ''https://slow.example/big.png'' (Some 100) empty_world)
    in promises (run [ImgLoad 7] w') ! 0 = Pending \<and>
       t_status (timers (run [ImgLoad 7] w') ! 0) = Armed \<and>
       promises (run [TimerFire 0] w') ! 0 \<noteq> Pending \<and>
       t_status (timers (run [TimerFire 0] w') ! 0) = Fired \<and>
       deliver (TimerFire 0) (run [TimerFire 0] w') = run [TimerFire 0] w' \<and>
       (\<forall>es'. promises (run ([TimerFire 0] @ es') w') ! 0
                = promises (run [TimerFire 0] w') ! 0))"
proof -
  let ?w = "snd (preloadImage ''https://slow.example/big.png'' (Some 100) empty_world)"
  have l: "length (promises empty_world) = 0" "length (timers empty_world) = 0"
    by (simp_all add: empty_world_def)
  have f: "filter (own (probe_of (PreloadImage (Some 100)) empty_world)) [ImgLoad 7] = []"
    "filter (own (probe_of (PreloadImage (Some 100)) empty_world)) [TimerFire 0] = [TimerFire 0]"
    by (simp_all add: own_def empty_world_def)
  note t = preloadImage_settles_exactly_once [OF wf_empty_world,
      where timeout_arg = "Some 100" and url = "''https://slow.example/big.png''",
      unfolded Let_def l, THEN spec]
  note a = t [of "[ImgLoad 7]", unfolded f]
  note b = t [of "[TimerFire 0]", unfolded f]
  have a1: "promises (run [ImgLoad 7] ?w) ! 0 = Pending"
    using a [THEN conjunct1] by simp
  have a2: "t_status (timers (run [ImgLoad 7] ?w) ! 0) = Armed"
    using a [THEN conjunct2, THEN conjunct1] by simp
  have b1: "promises (run [TimerFire 0] ?w) ! 0 \<noteq> Pending"
    using b [THEN conjunct1] by simp
  have b2: "t_status (timers (run [TimerFire 0] ?w) ! 0) = Fired"
    using b [THEN conjunct2, THEN conjunct1] by simp
  have b3: "deliver (TimerFire 0) (run [TimerFire 0] ?w) = run [TimerFire 0] ?w \<and>
       (\<forall>es'. promises (run ([TimerFire 0] @ es') ?w) ! 0
                = promises (run [TimerFire 0] ?w) ! 0)"
    using b [THEN conjunct2, THEN conjunct2] b1 by blast
  from wf_empty_world a1 a2 b1 b2 b3 show ?thesis unfolding Let_def by blast
qed

section \<open>The result of preloadImage\<close>

text \<open>
  Claim C5: for every call \<^verbatim>\<open>preloadImage(url, timeout)\<close>, when the load succeeds
  before the timeout the promise fulfills with exactly the \<^verbatim>\<open>url\<close> passed in; otherwise
  it rejects with an error whose message tells a failed load from a timeout.
  In a well-formed page, after any events \<open>es\<close>, the first event of the probe in \<open>es\<close>
  decides the state of the promise.
\<close>

theorem preloadImage_result:
  assumes "wf_world w"
  shows "promises (run es (snd (preloadImage url timeout_arg w))) ! length (promises w) =
           (case filter (own (probe_of (PreloadImage timeout_arg) w)) es of
              [] \<Rightarrow> Pending
            | TimerFire x # rest \<Rightarrow> Rejected (Error (''Image load timeout: '' @ url))
            | ImgLoad x # rest \<Rightarrow> Fulfilled url
            | ImgError x # rest \<Rightarrow> Rejected (Error (''Failed to load image: '' @ url))) \<and>
         Error (''Failed to load image: '' @ url) \<noteq> Error (''Image load timeout: '' @ url)"
  using preload_promise [OF assms, of es url timeout_arg] by simp

theorem preloadImage_result_witness:
  "wf_world empty_world \<and>
   promises (run [ImgLoad 0, TimerFire 0]
      (snd (preloadImage ''https://valid.example/img.png'' None empty_world))) ! 0
     = Fulfilled ''https://valid.example/img.png'' \<and>
   promises (run [TimerFire 0, ImgLoad 0]
      (snd (preloadImage ''https://slow.example/big.png'' (Some 100) empty_world))) ! 0
     = Rejected (Error ''Image load timeout: https://slow.example/big.png'') \<and>
   promises (run [ImgError 0]
      (snd (preloadImage ''https://missing.example/none.png'' None empty_world))) ! 0
     = Rejected (Error ''Failed to load image: https://missing.example/none.png'')"
  using preloadImage_result [OF wf_empty_world, of "[ImgLoad 0, TimerFire 0]"
          "''https://valid.example/img.png''" None]
        preloadImage_result [OF wf_empty_world, of "[TimerFire 0, ImgLoad 0]"
          "''https://slow.example/big.png''" "Some 100"]
        preloadImage_result [OF wf_empty_world, of "[ImgError 0]"
          "''https://missing.example/none.png''" None]
        wf_empty_world
  by (simp add: own_def empty_world_def del: run.simps)

section \<open>Warnings\<close>

lemma first_own_emitted:
  assumes "wf_world w" and "filter (own (probe_of c w)) es = []" and "own (probe_of c w) e"
  shows "emitted e (run es (snd (invoke c url w))) = emitted e (snd (invoke c url w))"
  using own_step [OF untouched [OF assms(1,2)] assms(3)] by simp

text \<open>
  What the first event of a probe appends to the trace, in a well-formed page and after
  any events \<open>es\<close> of other objects: each failing handler writes one warning, the
  tag followed by the URL, and then reports; the load handler writes none.
\<close>

lemma first_event_of_probe_appends:
  assumes "wf_world w"
    and "TimerFire (length (timers w)) \<notin> set es"
    and "ImgLoad (length (images w)) \<notin> set es"
    and "ImgError (length (images w)) \<notin> set es"
  shows "let t = length (timers w); i = length (images w); p = length (promises w);
             wc = run es (snd (checkImageExists url callback timeout_arg w));
             wp = run es (snd (preloadImage url timeout_arg w))
         in emitted (TimerFire t) wc
              = [Warn (''Image check timeout: '' @ url), Called callback False] \<and>
            emitted (ImgError i) wc
              = [Warn (''Image failed to load: '' @ url), Called callback False] \<and>
            emitted (ImgLoad i) wc = [Called callback True] \<and>
            emitted (TimerFire t) wp = [Warn (''Image load timeout: '' @ url)] \<and>
            promises (deliver (TimerFire t) wp) ! p
              = Rejected (Error (''Image load timeout: '' @ url)) \<and>
            emitted (ImgError i) wp = [Warn (''Failed to load image: '' @ url)] \<and>
            promises (deliver (ImgError i) wp) ! p
              = Rejected (Error (''Failed to load image: '' @ url)) \<and>
            emitted (ImgLoad i) wp = []"
proof -
  let ?c = "CheckImageExists callback timeout_arg" and ?p = "PreloadImage timeout_arg"
  let ?t = "length (timers w)" and ?i = "length (images w)"
  have nc: "filter (own (probe_of ?c w)) es = []" and np: "filter (own (probe_of ?p w)) es = []"
    using assms(2-4) by (simp_all add: no_own_event)
  have oc: "own (probe_of ?c w) (TimerFire ?t)" "own (probe_of ?c w) (ImgError ?i)"
    "own (probe_of ?c w) (ImgLoad ?i)"
    and op: "own (probe_of ?p w) (TimerFire ?t)" "own (probe_of ?p w) (ImgError ?i)"
    "own (probe_of ?p w) (ImgLoad ?i)"
    by (simp_all add: own_def)
  have c1: "emitted (TimerFire ?t) (run es (snd (checkImageExists url callback timeout_arg w)))
              = [Warn (''Image check timeout: '' @ url), Called callback False]"
    using first_own_emitted [OF assms(1) nc oc(1), of url]
    by (simp add: emitted_def checkImageExists_world host_defs)
  have c2: "emitted (ImgError ?i) (run es (snd (checkImageExists url callback timeout_arg w)))
              = [Warn (''Image failed to load: '' @ url), Called callback False]"
    using first_own_emitted [OF assms(1) nc oc(2), of url]
    by (simp add: emitted_def checkImageExists_world host_defs)
  have c3: "emitted (ImgLoad ?i) (run es (snd (checkImageExists url callback timeout_arg w)))
              = [Called callback True]"
    using first_own_emitted [OF assms(1) nc oc(3), of url]
    by (simp add: emitted_def checkImageExists_world host_defs)
  have p1: "emitted (TimerFire ?t) (run es (snd (preloadImage url timeout_arg w)))
              = [Warn (''Image load timeout: '' @ url)]"
    using first_own_emitted [OF assms(1) np op(1), of url]
    by (simp add: emitted_def preloadImage_world host_defs)
  have p2: "emitted (ImgError ?i) (run es (snd (preloadImage url timeout_arg w)))
              = [Warn (''Failed to load image: '' @ url)]"
    using first_own_emitted [OF assms(1) np op(2), of url]
    by (simp add: emitted_def preloadImage_world host_defs)
  have p3: "emitted (ImgLoad ?i) (run es (snd (preloadImage url timeout_arg w))) = []"
    using first_own_emitted [OF assms(1) np op(3), of url]
    by (simp add: emitted_def preloadImage_world host_defs)
  have r1: "promises (deliver (TimerFire ?t) (run es (snd (preloadImage url timeout_arg w))))
              ! length (promises w) = Rejected (Error (''Image load timeout: '' @ url))"
    using preload_promise [OF assms(1), of "es @ [TimerFire ?t]" url timeout_arg] np op(1)
    by (simp add: run_append)
  have r2: "promises (deliver (ImgError ?i) (run es (snd (preloadImage url timeout_arg w))))
              ! length (promises w) = Rejected (Error (''Failed to load image: '' @ url))"
    using preload_promise [OF assms(1), of "es @ [ImgError ?i]" url timeout_arg] np op(2)
    by (simp add: run_append)
  from c1 c2 c3 p1 p2 p3 r1 r2 show ?thesis unfolding Let_def by blast
qed

text \<open>
  When the load or the error event of the image is the first event of a
  \<^verbatim>\<open>preloadImage\<close> probe, the timer is cleared and the image is done: all that the
  probe ever appends to the trace is the one warning of a failed load, or nothing.
\<close>

lemma preloadImage_image_first:
  assumes "wf_world w"
    and "TimerFire (length (timers w)) \<notin> set es1"
    and "ImgLoad (length (images w)) \<notin> set es1"
    and "ImgError (length (images w)) \<notin> set es1"
  shows "concat (map snd (filter (\<lambda>(e, out). own (probe_of (PreloadImage timeout_arg) w) e)
           (outputs (es1 @ ImgLoad (length (images w)) # es2)
              (snd (preloadImage url timeout_arg w)))))
         = []"
    and "concat (map snd (filter (\<lambda>(e, out). own (probe_of (PreloadImage timeout_arg) w) e)
           (outputs (es1 @ ImgError (length (images w)) # es2)
              (snd (preloadImage url timeout_arg w)))))
         = [Warn (''Failed to load image: '' @ url)]"
proof -
  let ?c = "PreloadImage timeout_arg"
  let ?P = "probe_of ?c w" and ?w = "snd (preloadImage url timeout_arg w)"
  let ?i = "length (images w)"
  have n: "filter (own ?P) es1 = []" using assms(2-4) by (simp add: no_own_event)
  have i: "isolated ?P ?w" using isolated_new [OF assms(1), of ?c url] by simp
  then have a: "agree ?P ?w ?w" by (simp add: isolated_def agree_refl)
  have fr: "filter (\<lambda>(e, out). own ?P e) (outputs es ?w) = outputs (filter (own ?P) es) ?w" for es
    using frame [OF i a, of es] by (simp add: own_events_decide_def)
  have q1: "t_status (timers (deliver (ImgLoad ?i) ?w) ! p_timer ?P) \<noteq> Armed"
    "i_status (images (deliver (ImgLoad ?i) ?w) ! p_image ?P) \<noteq> Loading"
    by (simp_all add: preloadImage_world host_defs)
  have q2: "t_status (timers (deliver (ImgError ?i) ?w) ! p_timer ?P) \<noteq> Armed"
    "i_status (images (deliver (ImgError ?i) ?w) ! p_image ?P) \<noteq> Loading"
    by (simp_all add: preloadImage_world host_defs)
  have e1: "emitted (ImgLoad ?i) ?w = []"
    by (simp add: emitted_def preloadImage_world host_defs)
  have e2: "emitted (ImgError ?i) ?w = [Warn (''Failed to load image: '' @ url)]"
    by (simp add: emitted_def preloadImage_world host_defs)
  have o: "own ?P (ImgLoad ?i)" "own ?P (ImgError ?i)" by (simp_all add: own_def)
  show "concat (map snd (filter (\<lambda>(e, out). own ?P e)
           (outputs (es1 @ ImgLoad ?i # es2) ?w))) = []"
    using n o e1 quiet_outputs [OF q1, of es2] by (simp add: fr del: probe_of.simps)
  show "concat (map snd (filter (\<lambda>(e, out). own ?P e)
           (outputs (es1 @ ImgError ?i # es2) ?w)))
         = [Warn (''Failed to load image: '' @ url)]"
    using n o e2 quiet_outputs [OF q2, of es2] by (simp add: fr del: probe_of.simps)
qed

text \<open>
  Claim C6: for both operations, whenever the outcome of a probe is failure or
  timeout, exactly one warning is written, with the URL of the probe and a tag that
  tells a timeout from a failed load, and the warning is not fatal.
  A probe that times out and whose load then ends with an error writes two warnings,
  one with each tag, for one outcome: the timer handler leaves \<^verbatim>\<open>img.onerror\<close>
  attached. The promise of \<^verbatim>\<open>preloadImage\<close> stays rejected with the timeout error.
\<close>

theorem timed_out_probe_warns_twice:
  "filter is_warning (trace (run [TimerFire 0, ImgError 0]
       (snd (checkImageExists ''https://slow.example/none.png'' 0 (Some 100) empty_world))))
     = [Warn ''Image check timeout: https://slow.example/none.png'',
        Warn ''Image failed to load: https://slow.example/none.png''] \<and>
   filter is_warning (trace (run [TimerFire 0, ImgError 0]
       (snd (preloadImage ''https://slow.example/none.png'' (Some 100) empty_world))))
     = [Warn ''Image load timeout: https://slow.example/none.png'',
        Warn ''Failed to load image: https://slow.example/none.png''] \<and>
   promises (run [TimerFire 0, ImgError 0]
       (snd (preloadImage ''https://slow.example/none.png'' (Some 100) empty_world))) ! 0
     = Rejected (Error ''Image load timeout: https://slow.example/none.png'')"
  by (simp add: checkImageExists_world preloadImage_world empty_world_def host_defs
        is_warning_def)

section \<open>What a call sets up\<close>

text \<open>
  Claim C7: for both operations, when the timeout argument is omitted, the timeout
  used for the probe is 5000: the timer the call creates is armed with that delay.
\<close>

theorem default_timeout_5000:
  "timers (snd (checkImageExists url callback None w)) =
     timers w @
       [\<lparr>t_handler = CheckTimeout url callback, t_delay = 5000, t_status = Armed\<rparr>] \<and>
   timers (snd (preloadImage url None w)) =
     timers w @
       [\<lparr>t_handler = PreloadTimeout url (length (promises w)), t_delay = 5000,
         t_status = Armed\<rparr>]"
  by (simp add: checkImageExists_world preloadImage_world)

text \<open>
  Claim C8: for every call to either operation the image handle has its cross-origin
  mode set to anonymous before the source URL is assigned and the load begins: the
  request the new image started is for \<open>url\<close> in mode anonymous, and the load is under
  way when the call returns.
\<close>

theorem anonymous_before_src:
  "(let im = images (snd (checkImageExists url callback timeout_arg w)) ! length (images w)
    in request im = Some (url, Some ''anonymous'') \<and> crossOrigin im = Some ''anonymous'' \<and>
       src im = Some url \<and> i_status im = Loading) \<and>
   (let im = images (snd (preloadImage url timeout_arg w)) ! length (images w)
    in request im = Some (url, Some ''anonymous'') \<and> crossOrigin im = Some ''anonymous'' \<and>
       src im = Some url \<and> i_status im = Loading)"
  by (simp add: checkImageExists_world preloadImage_world)

text \<open>
  Claim C10: neither operation validates its inputs or fails synchronously. For any
  \<open>url\<close> (the empty string too) and any timeout (zero and negative too)
  \<^verbatim>\<open>checkImageExists\<close> returns \<^verbatim>\<open>undefined\<close> and \<^verbatim>\<open>preloadImage\<close> returns its promise,
  still pending; the timeout and the URL are handed to the timer and to the image as
  they are; and by the time the call returns nothing has been reported: no callback
  invoked, no warning written.
\<close>

theorem no_validation_no_synchronous_report:
  "fst (checkImageExists url callback timeout_arg w) = Undefined \<and>
   trace (snd (checkImageExists url callback timeout_arg w)) = trace w \<and>
   t_delay (timers (snd (checkImageExists url callback (Some d) w)) ! length (timers w)) = d \<and>
   src (images (snd (checkImageExists url callback timeout_arg w)) ! length (images w))
     = Some url \<and>
   fst (preloadImage url timeout_arg w) = PromiseRef (length (promises w)) \<and>
   promises (snd (preloadImage url timeout_arg w)) ! length (promises w) = Pending \<and>
   trace (snd (preloadImage url timeout_arg w)) = trace w \<and>
   t_delay (timers (snd (preloadImage url (Some d) w)) ! length (timers w)) = d \<and>
   src (images (snd (preloadImage url timeout_arg w)) ! length (images w)) = Some url"
  by (simp add: checkImageExists_world preloadImage_world)

section \<open>Independence of probes\<close>

text \<open>
  Claim C9: two calls with the same URL make two independent probes: each call creates
  its own image handle and timer; no mutable state or cache is shared; and the outcome
  of each probe depends on its own load attempt only, not on the result of a prior
  probe.
  In a well-formed page \<open>w\<close>, let call \<open>a\<close> make probe \<open>A\<close> and then call \<open>b\<close>, with the
  same URL, make probe \<open>B\<close>. The two probes have different timers and images; the
  second call appends its objects and leaves everything else in the page as it was;
  under any events \<open>es\<close> probe \<open>A\<close> behaves as under its own events alone in the page
  where \<open>b\<close> was never called; and probe \<open>B\<close> behaves as under its own events alone
  with \<open>A\<close> left untouched, whatever events \<open>es0\<close> (those of \<open>A\<close> among them) had
  occurred before \<open>b\<close> was called.
\<close>

theorem probes_are_independent:
  assumes "wf_world w"
  shows "let A = probe_of a w; wA = snd (invoke a url w);
             B = probe_of b wA; wAB = snd (invoke b url wA)
         in p_timer A \<noteq> p_timer B \<and> p_image A \<noteq> p_image B \<and>
            butlast (timers wAB) = timers wA \<and> butlast (images wAB) = images wA \<and>
            take (length (promises wA)) (promises wAB) = promises wA \<and>
            trace wAB = trace wA \<and>
            (\<forall>es. own_events_decide A es wAB wA) \<and>
            (\<forall>es0 es. own_events_decide B es (snd (invoke b url (run es0 wA))) wAB)"
proof -
  let ?A = "probe_of a w" and ?wA = "snd (invoke a url w)"
  let ?B = "probe_of b ?wA" and ?wAB = "snd (invoke b url ?wA)"
  have rA: "in_range ?A ?wA" by (rule in_range_new)
  have d: "p_timer ?A \<noteq> p_timer ?B" "p_image ?A \<noteq> p_image ?B"
    using rA by (simp_all add: in_range_def probe_of_ids)
  obtain T where T: "timers ?wAB = timers ?wA @ [T]" using invoke_timers by blast
  obtain I where I: "images ?wAB = images ?wA @ [I]" using invoke_images by blast
  have u: "butlast (timers ?wAB) = timers ?wA" "butlast (images ?wAB) = images ?wA"
    "take (length (promises ?wA)) (promises ?wAB) = promises ?wA" "trace ?wAB = trace ?wA"
    using T I invoke_promises [of ?wA b url] invoke_trace [of b url ?wA] by simp_all
  have wfA: "wf_world ?wA" using assms by (rule wf_invoke)
  have iA: "isolated ?A ?wAB"
    using isolated_new [OF assms, of a url] by (rule isolated_invoke)
  have aA: "agree ?A ?wAB ?wA" using rA by (rule agree_invoke)
  have A: "own_events_decide ?A es ?wAB ?wA" for es
    using iA aA by (rule frame)
  have B: "own_events_decide ?B es (snd (invoke b url (run es0 ?wA))) ?wAB" for es0 es
  proof -
    have wf0: "wf_world (run es0 ?wA)" using wfA by (simp add: wf_run)
    have e: "probe_of b (run es0 ?wA) = ?B"
      and a: "agree ?B (snd (invoke b url (run es0 ?wA))) ?wAB"
      by (rule new_probe_same; simp)+
    from isolated_new [OF wf0, of b url] e
    have i: "isolated ?B (snd (invoke b url (run es0 ?wA)))" by simp
    from i a show ?thesis by (rule frame)
  qed
  from d u A B show ?thesis unfolding Let_def by blast
qed

theorem probes_are_independent_witness:
  "wf_world empty_world \<and>
   (let url = ''https://valid.example/img.png'';
        a = PreloadImage (Some 100); b = CheckImageExists 0 None;
        es = [TimerFire 0, ImgLoad 1, ImgLoad 0];
        A = probe_of a empty_world; wA = snd (invoke a url empty_world);
        B = probe_of b wA; wAB = snd (invoke b url wA)
    in p_timer A \<noteq> p_timer B \<and> p_image A \<noteq> p_image B \<and>
       own_events_decide A es wAB wA \<and>
       own_events_decide B es (snd (invoke b url (run [TimerFire 0] wA))) wAB \<and>
       filter (\<lambda>(e, out). own B e) (outputs es (snd (invoke b url (run [TimerFire 0] wA))))
         = [(ImgLoad 1, [Called 0 True])])"
proof -
  let ?url = "''https://valid.example/img.png''"
  let ?a = "PreloadImage (Some 100)" and ?b = "CheckImageExists 0 None"
  let ?es = "[TimerFire 0, ImgLoad 1, ImgLoad 0]"
  let ?A = "probe_of ?a empty_world" and ?wA = "snd (invoke ?a ?url empty_world)"
  let ?B = "probe_of ?b ?wA" and ?wAB = "snd (invoke ?b ?url ?wA)"
  note t = probes_are_independent [OF wf_empty_world,
      where a = ?a and b = ?b and url = ?url, unfolded Let_def]
  from t have d: "p_timer ?A \<noteq> p_timer ?B" "p_image ?A \<noteq> p_image ?B"
    by blast+
  from t have A: "own_events_decide ?A ?es ?wAB ?wA" by blast
  from t have B: "own_events_decide ?B ?es (snd (invoke ?b ?url (run [TimerFire 0] ?wA))) ?wAB"
    by blast
  have f: "filter (own ?B) ?es = [ImgLoad 1]"
    by (simp add: own_def preloadImage_world empty_world_def)
  have o: "outputs [ImgLoad 1] ?wAB = [(ImgLoad 1, [Called 0 True])]"
    by (simp add: emitted_def checkImageExists_world preloadImage_world empty_world_def host_defs)
  from B f o
  have C: "filter (\<lambda>(e, out). own ?B e)
             (outputs ?es (snd (invoke ?b ?url (run [TimerFire 0] ?wA))))
           = [(ImgLoad 1, [Called 0 True])]"
    unfolding own_events_decide_def by simp
  from wf_empty_world d A B C show ?thesis unfolding Let_def by blast
qed

end
